theory Spec2Isabelle
  imports Main "HOL-Library.Char_ord" "HOL-Library.List_Lexorder" "HOL-Library.AList"
begin

section \<open>Text utilities\<close>

text \<open>
  A \<open>std::string\<close> is a sequence of bytes: \<open>string\<close>, a list of 8-bit \<open>char\<close>.
  The program never calls \<open>setlocale\<close>, so \<open>std::isspace\<close> and \<open>std::toupper\<close> are
  those of the "C" locale: the six white-space bytes 9..13 and 32, and the letters a..z.
\<close>

definition isspace :: "char \<Rightarrow> bool" where
  "isspace ch = (let n = (of_char ch :: nat) in n = 32 \<or> (9 \<le> n \<and> n \<le> 13))"

definition is_space_or_cntrl :: "char \<Rightarrow> bool" where
  "is_space_or_cntrl ch = (isspace ch \<or> ch = CHR 0x0D \<or> ch = CHR 0x0A)"

text \<open>The first loop of \<open>trim\<close>: erase the front byte while it is white space.\<close>

fun trim_front :: "string \<Rightarrow> string" where
  "trim_front [] = []"
| "trim_front (c # s) = (if is_space_or_cntrl c then trim_front s else c # s)"

text \<open>The second loop of \<open>trim\<close>: pop the back byte while it is white space.\<close>

function trim_back :: "string \<Rightarrow> string" where
  "trim_back s = (if s \<noteq> [] \<and> is_space_or_cntrl (last s) then trim_back (butlast s) else s)"
  by pat_completeness auto
termination
  by (relation "measure length") (auto simp: less_Suc_eq_le intro: diff_less)

declare trim_back.simps [simp del]

definition trim :: "string \<Rightarrow> string" where
  "trim s = trim_back (trim_front s)"

definition toupper :: "char \<Rightarrow> char" where
  "toupper c = (let n = (of_char c :: nat) in if 97 \<le> n \<and> n \<le> 122 then char_of (n - 32) else c)"

definition upper :: "string \<Rightarrow> string" where
  "upper s = map toupper s"

text \<open>
  \<open>std::getline(stream, item, delim)\<close> on a stream whose unread content is \<open>s\<close>:
  at end of input nothing is extracted and the call fails (\<open>None\<close>); otherwise the bytes
  before the first delimiter are the item, the delimiter is consumed and dropped, and the
  rest stays unread. A stream that ends right after a delimiter yields no further item.
\<close>

definition getline :: "char \<Rightarrow> string \<Rightarrow> (string \<times> string) option" where
  "getline delim s =
     (if s = [] then None
      else Some (takeWhile (\<lambda>c. c \<noteq> delim) s,
                 case dropWhile (\<lambda>c. c \<noteq> delim) s of [] \<Rightarrow> [] | _ # rest \<Rightarrow> rest))"

lemma getline_shorter: "getline delim s = Some (item, rest) \<Longrightarrow> length rest < length s"
proof -
  assume h: "getline delim s = Some (item, rest)"
  have "length (dropWhile (\<lambda>c. c \<noteq> delim) s) \<le> length s"
    by (rule length_dropWhile_le)
  with h show ?thesis
    by (cases s; cases "dropWhile (\<lambda>c. c \<noteq> delim) s") (auto simp: getline_def split: if_splits)
qed

text \<open>The loop of \<open>split_csv_simple\<close>, with the stream and the vector built so far.\<close>

function split_loop :: "string \<Rightarrow> string list \<Rightarrow> string list" where
  "split_loop ss parts =
     (case getline CHR '','' ss of
        None \<Rightarrow> parts
      | Some (item, ss') \<Rightarrow> split_loop ss' (parts @ [trim item]))"
  by pat_completeness auto
termination
  by (relation "measure (\<lambda>(ss, parts). length ss)") (auto dest: getline_shorter)

declare split_loop.simps [simp del]

definition split_csv_simple :: "string \<Rightarrow> string list" where
  "split_csv_simple line = split_loop line []"

section \<open>Data model\<close>

record Course =
  number :: string
  title :: string
  prereqs :: "string list"

text \<open>
  \<open>CourseCatalog\<close> wraps a \<open>std::unordered_map\<close> from \<open>std::string\<close> to \<open>Course\<close>. The map is
  an association list with one entry per key; the order of the entries stands for the
  unspecified iteration order of the hash table.
\<close>

text \<open>The private member \<open>data_\<close> is the field \<open>data\<close>.\<close>

record CourseCatalog =
  data :: "(string \<times> Course) list"

definition new_catalog :: CourseCatalog where
  "new_catalog = \<lparr>data = []\<rparr>"

definition upsert :: "CourseCatalog \<Rightarrow> Course \<Rightarrow> CourseCatalog" where
  "upsert cat c = cat\<lparr>data := AList.update (upper (number c)) c (data cat)\<rparr>"

definition contains :: "CourseCatalog \<Rightarrow> string \<Rightarrow> bool" where
  "contains cat num = (map_of (data cat) (upper num) \<noteq> None)"

text \<open>\<open>get\<close> returns a pointer to the stored record or \<open>nullptr\<close>: an option.\<close>

definition get :: "CourseCatalog \<Rightarrow> string \<Rightarrow> Course option" where
  "get cat num = map_of (data cat) (upper num)"

text \<open>
  \<open>std::sort\<close> orders \<open>std::string\<close>s by \<open>operator<\<close>: lexicographically, bytes
  compared as unsigned values. That is the order of \<open>string\<close> here.
\<close>

definition sorted_numbers :: "CourseCatalog \<Rightarrow> string list" where
  "sorted_numbers cat = sort (map fst (data cat))"

definition clear :: "CourseCatalog \<Rightarrow> CourseCatalog" where
  "clear cat = cat\<lparr>data := []\<rparr>"

text \<open>The member function \<open>empty\<close>.\<close>

definition empty_catalog :: "CourseCatalog \<Rightarrow> bool" where
  "empty_catalog cat = (data cat = [])"

section \<open>Loading\<close>

text \<open>
  The three ways \<open>load_catalog_from_csv\<close> returns \<open>false\<close>, with what the message
  carries: the path, or the line number.
\<close>

datatype load_error = OpenError string | ParseError nat | InvalidDataError nat

text \<open>Decimal output of an unsigned number, as \<open>operator<<\<close> prints it.\<close>

function to_string :: "nat \<Rightarrow> string" where
  "to_string n = (if n < 10 then [char_of (48 + n)] else to_string (n div 10) @ [char_of (48 + n mod 10)])"
  by pat_completeness auto
termination
  by (relation "measure id") auto

declare to_string.simps [simp del]

definition error_text :: "load_error \<Rightarrow> string" where
  "error_text e =
     (case e of
        OpenError file_path \<Rightarrow> ''Could not open file: '' @ file_path
      | ParseError line_no \<Rightarrow>
          ''Parse error on line '' @ to_string line_no @ '': need at least courseNumber and courseTitle.''
      | InvalidDataError line_no \<Rightarrow>
          ''Invalid data on line '' @ to_string line_no @ '': empty course number or title.'')"

text \<open>The loop over the fields from index 2 on, which appends the prerequisites.\<close>

function prereq_loop :: "string list \<Rightarrow> nat \<Rightarrow> Course \<Rightarrow> Course" where
  "prereq_loop flds i c =
     (if i < length flds then
        (let prereq = upper (flds ! i)
         in prereq_loop flds (i + 1)
              (if prereq \<noteq> [] then c\<lparr>prereqs := prereqs c @ [prereq]\<rparr> else c))
      else c)"
  by pat_completeness auto
termination
  by (relation "measure (\<lambda>(flds, i, c). length flds - i)") auto

declare prereq_loop.simps [simp del]

text \<open>
  One pass through the body of the reading loop, for the line just read and the line
  number already incremented: \<open>Inl\<close> where the source sets \<open>err\<close> and returns
  \<open>false\<close>, \<open>Inr\<close> with the temporary catalog as the pass leaves it otherwise.
  The line counter is a \<open>size_t\<close>; no file has enough lines to wrap it.
\<close>

definition loop_body :: "nat \<Rightarrow> string \<Rightarrow> CourseCatalog \<Rightarrow> load_error + CourseCatalog" where
  "loop_body line_no line0 temp =
     (let line = trim line0 in
      if line = [] then Inr temp
      else
        let flds = split_csv_simple line in
        if length flds < 2 then Inl (ParseError line_no)
        else
          let num = upper (flds ! 0); ttl = flds ! 1 in
          if num = [] \<or> ttl = [] then Inl (InvalidDataError line_no)
          else Inr (upsert temp (prereq_loop flds 2 \<lparr>number = num, title = ttl, prereqs = []\<rparr>)))"

function load_loop :: "string \<Rightarrow> nat \<Rightarrow> CourseCatalog \<Rightarrow> load_error + CourseCatalog" where
  "load_loop fin line_no temp =
     (case getline (CHR 0x0A) fin of
        None \<Rightarrow> Inr temp
      | Some (line, fin') \<Rightarrow>
          (case loop_body (line_no + 1) line temp of
             Inl e \<Rightarrow> Inl e
           | Inr temp' \<Rightarrow> load_loop fin' (line_no + 1) temp'))"
  by pat_completeness auto
termination
  by (relation "measure (\<lambda>(fin, line_no, temp). length fin)") (auto dest: getline_shorter)

declare load_loop.simps [simp del]

text \<open>
  The file system is what opening and reading a path gives: \<open>None\<close> when the stream
  cannot be opened, the bytes of the file otherwise. The function returns its \<open>bool\<close>
  together with the two reference parameters as it leaves them.
\<close>

type_synonym filesystem = "string \<Rightarrow> string option"

definition load_catalog_from_csv ::
  "filesystem \<Rightarrow> string \<Rightarrow> CourseCatalog \<Rightarrow> string \<Rightarrow> bool \<times> CourseCatalog \<times> string" where
  "load_catalog_from_csv fs file_path out_catalog err =
     (case fs file_path of
        None \<Rightarrow> (False, out_catalog, error_text (OpenError file_path))
      | Some content \<Rightarrow>
          (case load_loop content 0 new_catalog of
             Inl e \<Rightarrow> (False, out_catalog, error_text e)
           | Inr temp \<Rightarrow> (True, temp, err)))"

section \<open>Presentation\<close>

text \<open>Output is the text written to \<open>std::cout\<close>; \<open>NL\<close> is the line feed.\<close>

abbreviation NL :: string where
  "NL \<equiv> [CHR 0x0A]"

definition print_welcome :: string where
  "print_welcome = ''Welcome to the course planner.'' @ NL @ NL"

definition print_menu :: string where
  "print_menu =
     ''  1. Load Data Structure.'' @ NL @
     ''  2. Print Course List.'' @ NL @
     ''  3. Print Course.'' @ NL @
     ''  9. Exit'' @ NL @ NL @
     ''What would you like to do? ''"

definition print_course_list :: "CourseCatalog \<Rightarrow> string" where
  "print_course_list cat =
     ''Here is a sample schedule:'' @ NL @
     concat (map (\<lambda>num. case get cat num of
                           Some c \<Rightarrow> number c @ '', '' @ title c @ NL
                         | None \<Rightarrow> [])
                 (sorted_numbers cat)) @
     NL"

text \<open>
  The loop that prints the prerequisites: each one as the number of the record it
  resolves to, or as stored when it does not resolve, with a separator before every
  prerequisite but the first.
\<close>

fun print_prereqs :: "CourseCatalog \<Rightarrow> string list \<Rightarrow> string" where
  "print_prereqs cat [] = []"
| "print_prereqs cat (pnum # rest) =
     (case get cat pnum of Some pc \<Rightarrow> number pc | None \<Rightarrow> pnum) @
     (if rest \<noteq> [] then '', '' else []) @
     print_prereqs cat rest"

definition print_course_details :: "CourseCatalog \<Rightarrow> string \<Rightarrow> string" where
  "print_course_details cat user_input_number =
     (let num = upper user_input_number in
      case get cat num of
        None \<Rightarrow> num @ '' was not found.'' @ NL @ NL
      | Some c \<Rightarrow>
          number c @ '', '' @ title c @ NL @
          (if prereqs c = [] then ''Prerequisites: None'' @ NL @ NL
           else ''Prerequisites: '' @ print_prereqs cat (prereqs c) @ NL @ NL))"

section \<open>Main\<close>

text \<open>
  \<open>std::stoi\<close> in base 10, as \<open>strtol\<close> reads: leading white space, an optional sign,
  then the longest run of digits; whatever follows the digits is ignored. \<open>None\<close> is
  the exception thrown when there is no digit (\<open>invalid_argument\<close>) or when the value
  does not fit an \<open>int\<close> (\<open>out_of_range\<close>).
\<close>

definition isdigit :: "char \<Rightarrow> bool" where
  "isdigit c = (let n = (of_char c :: nat) in 48 \<le> n \<and> n \<le> 57)"

definition digits_value :: "string \<Rightarrow> int" where
  "digits_value ds = foldl (\<lambda>acc d. acc * 10 + (int (of_char d) - 48)) 0 ds"

definition stoi :: "string \<Rightarrow> int option" where
  "stoi str =
     (let s1 = dropWhile isspace str;
          neg = (s1 \<noteq> [] \<and> hd s1 = CHR ''-'');
          s2 = (if s1 \<noteq> [] \<and> (hd s1 = CHR ''-'' \<or> hd s1 = CHR ''+'') then tl s1 else s1);
          ds = takeWhile isdigit s2
      in if ds = [] then None
         else
           let v = (if neg then - digits_value ds else digits_value ds)
           in if v < - 2147483648 \<or> 2147483647 < v then None else Some v)"

text \<open>Decimal output of an \<open>int\<close>.\<close>

definition int_to_string :: "int \<Rightarrow> string" where
  "int_to_string i = (if i < 0 then ''-'' @ to_string (nat (- i)) else to_string (nat i))"

text \<open>
  The state of \<open>main\<close>: the live catalog, the unread standard input, the output written
  so far and the loop flag.
\<close>

record main_state =
  catalog :: CourseCatalog
  cin :: string
  cout :: string
  running :: bool

definition put :: "string \<Rightarrow> main_state \<Rightarrow> main_state" where
  "put text st = st\<lparr>cout := cout st @ text\<rparr>"

text \<open>\<open>case 1\<close> of the switch.\<close>

definition case_load :: "filesystem \<Rightarrow> main_state \<Rightarrow> main_state" where
  "case_load fs st0 =
     (let st = put ''Enter the file name to load (e.g., CS 300 ABCU_Advising_Program_Input.csv): '' st0 in
      case getline (CHR 0x0A) (cin st) of
        None \<Rightarrow> put (''Input cancelled.'' @ NL @ NL) st
      | Some (filename0, rest) \<Rightarrow>
          (let st1 = st\<lparr>cin := rest\<rparr>; filename = trim filename0 in
           if filename = [] then put (''File name cannot be empty.'' @ NL @ NL) st1
           else
             (case load_catalog_from_csv fs filename new_catalog [] of
                (True, newCatalog, err) \<Rightarrow>
                  put (''Data loaded successfully ('' @ to_string (length (sorted_numbers newCatalog))
                       @ '' courses).'' @ NL @ NL)
                      (st1\<lparr>catalog := newCatalog\<rparr>)
              | (False, newCatalog, err) \<Rightarrow> put (''Error: '' @ err @ NL @ NL) st1)))"

text \<open>\<open>case 2\<close> of the switch.\<close>

definition case_list :: "main_state \<Rightarrow> main_state" where
  "case_list st =
     (if empty_catalog (catalog st)
      then put (''Please load the data structure first (option 1).'' @ NL @ NL) st
      else put (print_course_list (catalog st)) st)"

text \<open>\<open>case 3\<close> of the switch.\<close>

definition case_details :: "main_state \<Rightarrow> main_state" where
  "case_details st0 =
     (if empty_catalog (catalog st0)
      then put (''Please load the data structure first (option 1).'' @ NL @ NL) st0
      else
        (let st = put ''What course do you want to know about? '' st0 in
         case getline (CHR 0x0A) (cin st) of
           None \<Rightarrow> put (''Input cancelled.'' @ NL @ NL) st
         | Some (number0, rest) \<Rightarrow>
             (let st1 = st\<lparr>cin := rest\<rparr>; num = trim number0 in
              if num = [] then put (''Course number cannot be empty.'' @ NL @ NL) st1
              else put (print_course_details (catalog st1) num) st1)))"

text \<open>
  The body of the menu loop from the trimming of the line just read to the end of the
  switch.
\<close>

definition handle_option :: "filesystem \<Rightarrow> string \<Rightarrow> main_state \<Rightarrow> main_state" where
  "handle_option fs option_raw0 st =
     (let option_raw = trim option_raw0 in
      if option_raw = [] then put (''Please enter a menu option.'' @ NL @ NL) st
      else if length option_raw > 2 then put (option_raw @ '' is not a valid option.'' @ NL @ NL) st
      else
        (case stoi option_raw of
           None \<Rightarrow> put (option_raw @ '' is not a valid option.'' @ NL @ NL) st
         | Some opt \<Rightarrow>
             if opt = 1 then case_load fs st
             else if opt = 2 then case_list st
             else if opt = 3 then case_details st
             else if opt = 9 then
               (put (''Thank you for using the course planner!'' @ NL) st)\<lparr>running := False\<rparr>
             else put (int_to_string opt @ '' is not a valid option.'' @ NL @ NL) st))"

lemma put_cin: "cin (put text st) = cin st"
  by (simp add: put_def)

lemma case_load_cin: "length (cin (case_load fs st)) \<le> length (cin st)"
  by (auto simp: case_load_def put_def Let_def split: option.splits prod.splits bool.splits
           dest!: getline_shorter)

lemma case_details_cin: "length (cin (case_details st)) \<le> length (cin st)"
  by (auto simp: case_details_def put_def Let_def split: option.splits prod.splits
           dest!: getline_shorter)

lemma handle_option_cin: "length (cin (handle_option fs option_raw0 st)) \<le> length (cin st)"
  using case_load_cin [of fs st] case_details_cin [of st]
  by (auto simp: handle_option_def case_list_def put_def Let_def split: option.splits)

text \<open>
  The menu loop. It ends when \<open>running\<close> is cleared or when standard input is at its
  end; every pass consumes at least one byte of input.
\<close>

function main_loop :: "filesystem \<Rightarrow> main_state \<Rightarrow> main_state" where
  "main_loop fs st =
     (if \<not> running st then st
      else
        (let st1 = put print_menu st in
         case getline (CHR 0x0A) (cin st1) of
           None \<Rightarrow> st1
         | Some (option_raw, rest) \<Rightarrow> main_loop fs (handle_option fs option_raw (st1\<lparr>cin := rest\<rparr>))))"
  by pat_completeness auto
termination
proof (relation "measure (\<lambda>(fs, st). length (cin st))", goal_cases)
  case 1
  show ?case by simp
next
  case (2 fs st st1 x2 option_raw rest)
  have "length (cin (handle_option fs option_raw (st1\<lparr>cin := rest\<rparr>))) \<le> length rest"
    using handle_option_cin [of fs option_raw "st1\<lparr>cin := rest\<rparr>"] by simp
  moreover have "length rest < length (cin st)"
    using 2 getline_shorter [of "CHR 0x0A" "cin st1" option_raw rest] by (simp add: put_cin)
  ultimately show ?case by simp
qed

declare main_loop.simps [simp del]

definition main :: "filesystem \<Rightarrow> string \<Rightarrow> main_state" where
  "main fs input =
     main_loop fs (put print_welcome \<lparr>catalog = new_catalog, cin = input, cout = [], running = True\<rparr>)"

section \<open>The loops as lists\<close>

text \<open>
  All the items that successive calls of \<open>getline\<close> extract from a stream: the fields of
  a line for the delimiter comma, the lines of a file for the line feed.
\<close>

function getlines :: "char \<Rightarrow> string \<Rightarrow> string list" where
  "getlines delim s =
     (case getline delim s of
        None \<Rightarrow> []
      | Some (item, rest) \<Rightarrow> item # getlines delim rest)"
  by pat_completeness auto
termination
  by (relation "measure (\<lambda>(delim, s). length s)") (auto dest: getline_shorter)

declare getlines.simps [simp del]

text \<open>The reading loop over the lines still to be read.\<close>

fun load_lines :: "string list \<Rightarrow> nat \<Rightarrow> CourseCatalog \<Rightarrow> load_error + CourseCatalog" where
  "load_lines [] line_no temp = Inr temp"
| "load_lines (line # rest) line_no temp =
     (case loop_body (line_no + 1) line temp of
        Inl e \<Rightarrow> Inl e
      | Inr temp' \<Rightarrow> load_lines rest (line_no + 1) temp')"

section \<open>What the specification says of a line\<close>

text \<open>
  The words of the specification about one line of the file: its fields (the trimmed
  line split at the commas, each field trimmed), its normalized identifier (field 0 in
  upper case), its title (field 1), its prerequisites (the fields from index 2 on, in
  upper case, the empty ones left out) and the record they make. A line is blank when
  it is empty after trimming; it parses when it is blank or has at least two fields with
  a non-empty identifier and a non-empty title.
\<close>

definition line_fields :: "string \<Rightarrow> string list" where
  "line_fields line = split_csv_simple (trim line)"

definition line_identifier :: "string \<Rightarrow> string" where
  "line_identifier line = upper (line_fields line ! 0)"

definition line_title :: "string \<Rightarrow> string" where
  "line_title line = line_fields line ! 1"

definition line_prereqs :: "string \<Rightarrow> string list" where
  "line_prereqs line = filter (\<lambda>p. p \<noteq> []) (map upper (drop 2 (line_fields line)))"

definition line_course :: "string \<Rightarrow> Course" where
  "line_course line = \<lparr>number = line_identifier line, title = line_title line, prereqs = line_prereqs line\<rparr>"

definition blank :: "string \<Rightarrow> bool" where
  "blank line = (trim line = [])"

definition line_ok :: "string \<Rightarrow> bool" where
  "line_ok line =
     (blank line \<or>
      (2 \<le> length (line_fields line) \<and> line_identifier line \<noteq> [] \<and> line_title line \<noteq> []))"

text \<open>
  The bytes that trimming removes: the space, the tab, the line feed, the vertical tab,
  the form feed and the carriage return.
\<close>

definition white_space :: "char set" where
  "white_space = {CHR 0x20, CHR 0x09, CHR 0x0A, CHR 0x0B, CHR 0x0C, CHR 0x0D}"

text \<open>
  The items of a list with a separator between each two of them, as the detail view is
  said to print the prerequisites.
\<close>

fun join :: "string \<Rightarrow> string list \<Rightarrow> string" where
  "join sep [] = []"
| "join sep [x] = x"
| "join sep (x # y # rest) = x @ sep @ join sep (y # rest)"

section \<open>Catalog states\<close>

text \<open>
  The key under which \<open>upsert\<close> files a record, and three properties of a catalog:
  no key occurs twice (which a hash map guarantees), every key is the upper-case number
  of its record, and every record is stored as the loader builds it (its number is its
  key and its prerequisites are in upper case).
\<close>

definition course_key :: "Course \<Rightarrow> string" where
  "course_key c = upper (number c)"

definition keys_distinct :: "CourseCatalog \<Rightarrow> bool" where
  "keys_distinct cat = distinct (map fst (data cat))"

definition keys_normalized :: "CourseCatalog \<Rightarrow> bool" where
  "keys_normalized cat = (\<forall>(k, r) \<in> set (data cat). k = upper (number r))"

definition stored_normalized :: "CourseCatalog \<Rightarrow> bool" where
  "stored_normalized cat =
     (\<forall>(k, r) \<in> set (data cat). number r = k \<and> (\<forall>p \<in> set (prereqs r). upper p = p))"

text \<open>
  The catalogs that a sequence of \<open>upsert\<close>, \<open>clear\<close> and load operations can
  produce from the empty one. A load may fail and leave the catalog as it was.
\<close>

inductive reachable :: "CourseCatalog \<Rightarrow> bool" where
  reachable_new: "reachable new_catalog"
| reachable_upsert: "reachable cat \<Longrightarrow> reachable (upsert cat c)"
| reachable_clear: "reachable cat \<Longrightarrow> reachable (clear cat)"
| reachable_load:
    "reachable cat \<Longrightarrow> load_catalog_from_csv fs file_path cat err = (ok, cat', err')
       \<Longrightarrow> reachable cat'"

section \<open>Sample inputs\<close>

text \<open>A file system with a single file, and the files and catalogs of the examples.\<close>

definition one_file :: "string \<Rightarrow> string \<Rightarrow> filesystem" where
  "one_file name content path = (if path = name then Some content else None)"

definition parse_error_file :: string where
  "parse_error_file = ''CSCI100,Intro to CS'' @ NL @ NL @ ''CSCI101'' @ NL @ ''x,y'' @ NL"

definition invalid_data_file :: string where
  "invalid_data_file = ''CSCI100,Intro to CS'' @ NL @ NL @ ''CSCI101,,CSCI100'' @ NL @ ''x'' @ NL"

definition duplicate_file :: string where
  "duplicate_file = ''csci101,Old title,MATH100'' @ NL @ NL @ ''MATH201,Discrete'' @ NL @ ''CSCI101, New title ,math201,, csci100 '' @ NL"

definition duplicate_catalog :: CourseCatalog where
  "duplicate_catalog = \<lparr>data =
     [(''CSCI101'', \<lparr>number = ''CSCI101'', title = ''New title'', prereqs = [''MATH201'', ''CSCI100'']\<rparr>),
      (''MATH201'', \<lparr>number = ''MATH201'', title = ''Discrete'', prereqs = []\<rparr>)]\<rparr>"

definition scenario_catalog :: CourseCatalog where
  "scenario_catalog = \<lparr>data =
     [(''CSCI200'', \<lparr>number = ''CSCI200'', title = ''Data Structures'', prereqs = [''CSCI101'', ''MATH201'']\<rparr>),
      (''CSCI100'', \<lparr>number = ''CSCI100'', title = ''Intro to CS'', prereqs = []\<rparr>),
      (''CSCI101'', \<lparr>number = ''CSCI101'', title = ''Intro to Programming'', prereqs = [''CSCI100'']\<rparr>)]\<rparr>"

definition prereq_file :: string where
  "prereq_file = ''csci200,Data Structures'' @ NL
     @ '' CSCI300 , Algorithms , csci200 ,  ,, math201 , '' @ [CHR 0x09, CHR 0x0D] @ NL
     @ ''Math100,Algebra'' @ NL"

definition prereq_line :: string where
  "prereq_line = '' CSCI300 , Algorithms , csci200 ,  ,, math201 , '' @ [CHR 0x09, CHR 0x0D]"

definition prereq_catalog :: CourseCatalog where
  "prereq_catalog = \<lparr>data =
     [(''CSCI200'', \<lparr>number = ''CSCI200'', title = ''Data Structures'', prereqs = []\<rparr>),
      (''CSCI300'', \<lparr>number = ''CSCI300'', title = ''Algorithms'', prereqs = [''CSCI200'', ''MATH201'']\<rparr>),
      (''MATH100'', \<lparr>number = ''MATH100'', title = ''Algebra'', prereqs = []\<rparr>)]\<rparr>"

definition sample_catalog :: CourseCatalog where
  "sample_catalog = \<lparr>data = [(''MATH201'', \<lparr>number = ''MATH201'', title = ''Discrete Mathematics'', prereqs = []\<rparr>)]\<rparr>"

definition mixed_case_course :: Course where
  "mixed_case_course = \<lparr>number = ''csci101'', title = ''Foo'', prereqs = []\<rparr>"

definition foo_catalog :: CourseCatalog where
  "foo_catalog = \<lparr>data = [(''CSCI101'', \<lparr>number = ''CSCI101'', title = ''Foo'', prereqs = []\<rparr>)]\<rparr>"

section \<open>Properties of the text utilities and of the reading loop\<close>

lemma trim_front_dropWhile: "trim_front s = dropWhile is_space_or_cntrl s"
  by (induction s) auto

lemma trim_back_dropWhile: "trim_back s = rev (dropWhile is_space_or_cntrl (rev s))"
proof (induction s rule: rev_induct)
  case Nil
  show ?case by (simp add: trim_back.simps)
next
  case (snoc x xs)
  show ?case using snoc by (subst trim_back.simps) simp
qed

lemma trim_eq: "trim s = rev (dropWhile is_space_or_cntrl (rev (dropWhile is_space_or_cntrl s)))"
  by (simp add: trim_def trim_front_dropWhile trim_back_dropWhile)

lemma split_loop_getlines: "split_loop ss parts = parts @ map trim (getlines CHR '','' ss)"
proof (induction ss parts rule: split_loop.induct)
  case (1 ss parts)
  show ?case
  proof (cases "getline CHR '','' ss")
    case None
    then show ?thesis by (subst split_loop.simps, subst getlines.simps) simp
  next
    case (Some p)
    obtain item rest where p: "p = (item, rest)" by (cases p)
    from Some p 1 show ?thesis by (subst split_loop.simps, subst getlines.simps) simp
  qed
qed

lemma split_csv_simple_getlines: "split_csv_simple line = map trim (getlines CHR '','' line)"
  by (simp add: split_csv_simple_def split_loop_getlines)

lemma load_loop_lines: "load_loop fin line_no temp = load_lines (getlines (CHR 0x0A) fin) line_no temp"
proof (induction fin line_no temp rule: load_loop.induct)
  case (1 fin line_no temp)
  show ?case
  proof (cases "getline (CHR 0x0A) fin")
    case None
    then show ?thesis by (subst load_loop.simps, subst getlines.simps) simp
  next
    case (Some p)
    obtain line rest where p: "p = (line, rest)" by (cases p)
    from Some p 1 show ?thesis
      by (subst load_loop.simps, subst getlines.simps) (simp split: sum.splits)
  qed
qed

lemma loop_body_blank: "trim line = [] \<Longrightarrow> loop_body line_no line temp = Inr temp"
  by (simp add: loop_body_def)

lemma load_lines_blank:
  "\<forall>line \<in> set ls. trim line = [] \<Longrightarrow> load_lines ls line_no temp = Inr temp"
  by (induction ls arbitrary: line_no) (simp_all add: loop_body_blank)

lemma toupper_idem: "toupper (toupper c) = toupper c"
  by (auto simp: toupper_def Let_def)

lemma upper_idem: "upper (upper s) = upper s"
  by (simp add: upper_def toupper_idem)

lemma trim_empty_iff: "trim s = [] \<longleftrightarrow> (\<forall>c \<in> set s. is_space_or_cntrl c)"
proof
  assume "trim s = []"
  then have a: "\<forall>x \<in> set (dropWhile is_space_or_cntrl s). is_space_or_cntrl x"
    by (simp add: trim_eq dropWhile_eq_Nil_conv)
  have "dropWhile is_space_or_cntrl s = []"
  proof (rule ccontr)
    assume n: "dropWhile is_space_or_cntrl s \<noteq> []"
    then have "\<not> is_space_or_cntrl (hd (dropWhile is_space_or_cntrl s))"
      by (rule hd_dropWhile)
    moreover from n have "hd (dropWhile is_space_or_cntrl s) \<in> set (dropWhile is_space_or_cntrl s)"
      by (rule hd_in_set)
    ultimately show False using a by blast
  qed
  then show "\<forall>c \<in> set s. is_space_or_cntrl c"
    by (simp add: dropWhile_eq_Nil_conv)
next
  assume "\<forall>c \<in> set s. is_space_or_cntrl c"
  then show "trim s = []"
    by (auto simp: trim_eq dest: set_dropWhileD)
qed

lemma trim_no_outer_space:
  assumes "trim s \<noteq> []"
  shows "\<not> is_space_or_cntrl (hd (trim s)) \<and> \<not> is_space_or_cntrl (last (trim s))"
proof -
  let ?d = "dropWhile is_space_or_cntrl s"
  let ?e = "dropWhile is_space_or_cntrl (rev ?d)"
  have t: "trim s = rev ?e" by (simp add: trim_eq)
  from assms have e: "?e \<noteq> []" by (simp add: trim_eq)
  have "?d = [] \<Longrightarrow> ?e = []" by (simp only: rev.simps dropWhile.simps)
  with e have d: "?d \<noteq> []" by blast
  from e have l: "\<not> is_space_or_cntrl (hd ?e)" by (rule hd_dropWhile)
  from d have h: "\<not> is_space_or_cntrl (hd ?d)" by (rule hd_dropWhile)
  have "rev ?d = takeWhile is_space_or_cntrl (rev ?d) @ ?e" by simp
  then have "last (rev ?d) = last (takeWhile is_space_or_cntrl (rev ?d) @ ?e)" by simp
  also have "\<dots> = last ?e" using e by (rule last_appendR)
  finally have "last ?e = hd ?d" using d by (simp add: last_rev)
  with h l e show ?thesis
    unfolding t by (simp add: hd_rev last_rev)
qed

lemma is_space_or_cntrl_isspace: "is_space_or_cntrl c = isspace c"
  by (auto simp: is_space_or_cntrl_def isspace_def)

lemma toupper_space: "is_space_or_cntrl (toupper c) = is_space_or_cntrl c"
  by (auto simp: is_space_or_cntrl_isspace toupper_def isspace_def Let_def)

lemma char_of_code: "(of_char c :: nat) = n \<Longrightarrow> c = char_of n"
  by auto

lemma is_space_or_cntrl_bytes:
  "is_space_or_cntrl c \<longleftrightarrow> c \<in> {CHR 0x20, CHR 0x09, CHR 0x0A, CHR 0x0B, CHR 0x0C, CHR 0x0D}"
proof
  have v: "char_of (32 :: nat) = CHR 0x20" "char_of (9 :: nat) = CHR 0x09"
    "char_of (10 :: nat) = CHR 0x0A" "char_of (11 :: nat) = CHR 0x0B"
    "char_of (12 :: nat) = CHR 0x0C" "char_of (13 :: nat) = CHR 0x0D"
    by code_simp+
  assume "is_space_or_cntrl c"
  then have "(of_char c :: nat) = 32 \<or> (of_char c :: nat) = 9 \<or> (of_char c :: nat) = 10
      \<or> (of_char c :: nat) = 11 \<or> (of_char c :: nat) = 12 \<or> (of_char c :: nat) = 13"
    by (auto simp: is_space_or_cntrl_isspace isspace_def Let_def)
  then have "c = char_of (32 :: nat) \<or> c = char_of (9 :: nat) \<or> c = char_of (10 :: nat)
      \<or> c = char_of (11 :: nat) \<or> c = char_of (12 :: nat) \<or> c = char_of (13 :: nat)"
    using char_of_code [of c] by blast
  then show "c \<in> {CHR 0x20, CHR 0x09, CHR 0x0A, CHR 0x0B, CHR 0x0C, CHR 0x0D}"
    unfolding v by blast
next
  assume "c \<in> {CHR 0x20, CHR 0x09, CHR 0x0A, CHR 0x0B, CHR 0x0C, CHR 0x0D}"
  then show "is_space_or_cntrl c"
    by (auto simp: is_space_or_cntrl_isspace isspace_def)
qed

lemma toupper_not_lower: "\<not> (97 \<le> (of_char (toupper c) :: nat) \<and> (of_char (toupper c) :: nat) \<le> 122)"
  by (auto simp: toupper_def Let_def)

lemma upper_no_lower: "ch \<in> set (upper s) \<Longrightarrow> \<not> (97 \<le> (of_char ch :: nat) \<and> (of_char ch :: nat) \<le> 122)"
  using toupper_not_lower by (auto simp: upper_def)

lemma is_space_or_cntrl_white_space: "is_space_or_cntrl c \<longleftrightarrow> c \<in> white_space"
  by (simp only: is_space_or_cntrl_bytes white_space_def)

lemma upper_Nil_iff: "upper s = [] \<longleftrightarrow> s = []"
  by (simp add: upper_def)

lemma prereqs_of_raw_fields:
  "filter (\<lambda>p. p \<noteq> []) (map (upper \<circ> trim) raw)
     = map (\<lambda>f. upper (trim f)) (filter (\<lambda>f. \<exists>c \<in> set f. \<not> is_space_or_cntrl c) raw)"
  by (induction raw) (auto simp: upper_Nil_iff trim_empty_iff)

lemma prereq_loop_eq:
  "prereq_loop flds i c = c\<lparr>prereqs := prereqs c @ filter (\<lambda>p. p \<noteq> []) (map upper (drop i flds))\<rparr>"
proof (induction flds i c rule: prereq_loop.induct)
  case (1 flds i c)
  show ?case
  proof (cases "i < length flds")
    case True
    then have d: "drop i flds = flds ! i # drop (i + 1) flds"
      by (simp add: Cons_nth_drop_Suc)
    from True 1 show ?thesis
      by (subst prereq_loop.simps) (simp add: d Let_def)
  next
    case False
    then show ?thesis by (subst prereq_loop.simps) simp
  qed
qed

lemma loop_body_cases:
  "loop_body line_no line temp =
     (if blank line then Inr temp
      else if length (line_fields line) < 2 then Inl (ParseError line_no)
      else if line_identifier line = [] \<or> line_title line = [] then Inl (InvalidDataError line_no)
      else Inr (upsert temp (line_course line)))"
  by (simp add: loop_body_def blank_def line_fields_def line_identifier_def line_title_def
        line_course_def line_prereqs_def prereq_loop_eq Let_def)

lemma loop_body_Inr_iff: "(\<exists>t. loop_body line_no line temp = Inr t) \<longleftrightarrow> line_ok line"
  by (auto simp: loop_body_cases line_ok_def)

lemma load_lines_append:
  "load_lines (pre @ post) line_no temp =
     (case load_lines pre line_no temp of
        Inl e \<Rightarrow> Inl e
      | Inr t \<Rightarrow> load_lines post (line_no + length pre) t)"
  by (induction pre arbitrary: line_no temp) (auto split: sum.splits)

lemma load_lines_Inr_iff:
  "(\<exists>t. load_lines ls line_no temp = Inr t) \<longleftrightarrow> (\<forall>line \<in> set ls. line_ok line)"
proof (induction ls arbitrary: line_no temp)
  case Nil
  show ?case by simp
next
  case (Cons l ls)
  show ?case
  proof (cases "loop_body (line_no + 1) l temp")
    case (Inl e)
    with loop_body_Inr_iff [of "line_no + 1" l temp] show ?thesis by auto
  next
    case (Inr t)
    with loop_body_Inr_iff [of "line_no + 1" l temp] Cons [of "line_no + 1" t] show ?thesis by auto
  qed
qed

lemma load_lines_error_at:
  assumes "\<forall>l \<in> set pre. line_ok l"
    and "\<And>t. loop_body (line_no + length pre + 1) line t = Inl e"
  shows "load_lines (pre @ line # post) line_no temp = Inl e"
  using assms load_lines_Inr_iff [of pre line_no temp]
  by (auto simp: load_lines_append split: sum.splits)

lemma load_catalog_from_csv_error_at:
  assumes "fs file_path = Some content"
    and "getlines (CHR 0x0A) content = pre @ line # post"
    and "\<forall>l \<in> set pre. line_ok l"
    and "\<And>t. loop_body (length pre + 1) line t = Inl e"
  shows "load_catalog_from_csv fs file_path out_catalog err = (False, out_catalog, error_text e)"
  using assms load_lines_error_at [of pre 0 line e post new_catalog]
  by (simp add: load_catalog_from_csv_def load_loop_lines)

lemma load_catalog_from_csv_ok_iff:
  "fst (load_catalog_from_csv fs file_path out_catalog err) \<longleftrightarrow>
     (\<exists>content. fs file_path = Some content \<and> (\<forall>line \<in> set (getlines (CHR 0x0A) content). line_ok line))"
proof (cases "fs file_path")
  case None
  then show ?thesis by (simp add: load_catalog_from_csv_def)
next
  case (Some content)
  show ?thesis
    using Some load_lines_Inr_iff [of "getlines (CHR 0x0A) content" 0 new_catalog]
    by (auto simp: load_catalog_from_csv_def load_loop_lines split: sum.splits)
qed

lemma load_catalog_from_csv_failure:
  "\<not> fst (load_catalog_from_csv fs file_path out_catalog err) \<Longrightarrow>
     fst (snd (load_catalog_from_csv fs file_path out_catalog err)) = out_catalog
     \<and> (\<exists>e. snd (snd (load_catalog_from_csv fs file_path out_catalog err)) = error_text e)"
  by (auto simp: load_catalog_from_csv_def split: option.splits sum.splits)

lemma load_catalog_from_csv_success:
  "fst (load_catalog_from_csv fs file_path out_catalog err) \<Longrightarrow>
     \<exists>content. fs file_path = Some content
       \<and> load_lines (getlines (CHR 0x0A) content) 0 new_catalog
           = Inr (fst (snd (load_catalog_from_csv fs file_path out_catalog err)))
       \<and> snd (snd (load_catalog_from_csv fs file_path out_catalog err)) = err"
  by (auto simp: load_catalog_from_csv_def load_loop_lines split: option.splits sum.splits)

lemma load_lines_invariant:
  assumes "\<And>t l. P t \<Longrightarrow> P (upsert t (line_course l))"
    and "P temp"
    and "load_lines ls line_no temp = Inr cat"
  shows "P cat"
  using assms(2,3)
proof (induction ls arbitrary: line_no temp)
  case Nil
  then show ?case by simp
next
  case (Cons l ls)
  from Cons.prems(2) obtain t where b: "loop_body (line_no + 1) l temp = Inr t"
    and r: "load_lines ls (line_no + 1) t = Inr cat"
    by (auto split: sum.splits)
  from b have "t = temp \<or> t = upsert temp (line_course l)"
    by (auto simp: loop_body_cases split: if_splits)
  with Cons.prems(1) assms(1) have "P t" by auto
  then show ?case using r by (rule Cons.IH)
qed

lemma load_lines_ok_result:
  "\<forall>l \<in> set ls. line_ok l \<Longrightarrow>
     load_lines ls line_no temp
       = Inr (foldl upsert temp (map line_course (filter (\<lambda>l. \<not> blank l) ls)))"
  by (induction ls arbitrary: line_no temp) (auto simp: loop_body_cases line_ok_def)

lemma course_key_line_course: "course_key (line_course l) = line_identifier l"
  by (simp add: course_key_def line_course_def line_identifier_def upper_idem)

lemma upper_line_identifier: "upper (line_identifier l) = line_identifier l"
  by (simp add: line_identifier_def upper_idem)

section \<open>Properties of the catalog\<close>

lemma map_of_upsert: "map_of (data (upsert cat c)) = (map_of (data cat))(course_key c \<mapsto> c)"
  by (simp add: upsert_def course_key_def update_conv')

lemma keys_upsert: "fst ` set (data (upsert cat c)) = insert (course_key c) (fst ` set (data cat))"
proof -
  have "set (map fst (AList.update k c al)) = insert k (set (map fst al))" for k al
    by (auto simp: update_keys)
  then show ?thesis
    by (simp add: upsert_def course_key_def)
qed

lemma keys_distinct_upsert: "keys_distinct cat \<Longrightarrow> keys_distinct (upsert cat c)"
  by (simp add: keys_distinct_def upsert_def distinct_update)

lemma entries_upsert:
  "(k, r) \<in> set (data (upsert cat c)) \<Longrightarrow> (k = course_key c \<and> r = c) \<or> (k, r) \<in> set (data cat)"
proof -
  have "(k, r) \<in> set (AList.update k' c al) \<Longrightarrow> (k = k' \<and> r = c) \<or> (k, r) \<in> set al" for k' al
    by (induction al) (auto split: if_splits)
  then show "(k, r) \<in> set (data (upsert cat c)) \<Longrightarrow> ?thesis"
    by (simp add: upsert_def course_key_def)
qed

lemma keys_foldl_upsert:
  "fst ` set (data (foldl upsert temp cs)) = fst ` set (data temp) \<union> course_key ` set cs"
  by (induction cs arbitrary: temp) (auto simp: keys_upsert)

lemma map_of_foldl_upsert_other:
  "k \<notin> course_key ` set cs \<Longrightarrow> map_of (data (foldl upsert temp cs)) k = map_of (data temp) k"
  by (induction cs arbitrary: temp) (auto simp: map_of_upsert)

lemma map_of_foldl_upsert_last:
  "course_key c \<notin> course_key ` set post \<Longrightarrow>
     map_of (data (foldl upsert temp (pre @ c # post))) (course_key c) = Some c"
  by (simp add: map_of_foldl_upsert_other map_of_upsert)

lemma keys_normalized_upsert: "keys_normalized cat \<Longrightarrow> keys_normalized (upsert cat c)"
  by (auto simp: keys_normalized_def course_key_def dest!: entries_upsert)

lemma load_catalog_from_csv_invariant:
  assumes "\<And>t c. P t \<Longrightarrow> P (upsert t c)"
    and "P new_catalog"
    and "P out_catalog"
    and "load_catalog_from_csv fs file_path out_catalog err = (ok, cat, err')"
  shows "P cat"
proof (cases ok)
  case False
  with assms(4) load_catalog_from_csv_failure [of fs file_path out_catalog err]
  show ?thesis using assms(3) by simp
next
  case True
  with assms(4) load_catalog_from_csv_success [of fs file_path out_catalog err]
  obtain content where "load_lines (getlines (CHR 0x0A) content) 0 new_catalog = Inr cat"
    by auto
  with assms(1,2) show ?thesis
    using load_lines_invariant [of P new_catalog "getlines (CHR 0x0A) content" 0 cat] by blast
qed

lemma reachable_invariant:
  assumes "\<And>t c. P t \<Longrightarrow> P (upsert t c)"
    and "P new_catalog"
    and "reachable cat"
  shows "P cat"
  using assms(3)
proof (induction rule: reachable.induct)
  case reachable_new
  show ?case by (rule assms(2))
next
  case (reachable_upsert cat c)
  then show ?case by (simp add: assms(1))
next
  case (reachable_clear cat)
  have "clear cat = new_catalog"
    by (simp add: clear_def new_catalog_def)
  then show ?case by (simp add: assms(2))
next
  case (reachable_load cat fs file_path err ok cat' err')
  from assms(1,2) reachable_load.IH reachable_load.hyps(2) show ?case
    by (rule load_catalog_from_csv_invariant)
qed

lemma reachable_keys_distinct: "reachable cat \<Longrightarrow> keys_distinct cat"
  using keys_distinct_upsert
  by (rule reachable_invariant) (simp_all add: keys_distinct_def new_catalog_def)

lemma stored_normalized_upsert_line:
  "stored_normalized cat \<Longrightarrow> stored_normalized (upsert cat (line_course l))"
proof -
  have n: "number (line_course l) = course_key (line_course l)"
    by (simp add: course_key_line_course) (simp add: line_course_def)
  have p: "\<forall>p \<in> set (prereqs (line_course l)). upper p = p"
    by (auto simp: line_course_def line_prereqs_def upper_idem)
  assume "stored_normalized cat"
  with n p show ?thesis
    unfolding stored_normalized_def by (auto dest!: entries_upsert)
qed

lemma loaded_stored_normalized:
  assumes "load_catalog_from_csv fs file_path out_catalog err = (True, cat, err')"
  shows "stored_normalized cat"
proof -
  from assms load_catalog_from_csv_success [of fs file_path out_catalog err]
  obtain content where "load_lines (getlines (CHR 0x0A) content) 0 new_catalog = Inr cat"
    by auto
  moreover have "stored_normalized new_catalog"
    by (simp add: stored_normalized_def new_catalog_def)
  ultimately show ?thesis
    using load_lines_invariant [of stored_normalized new_catalog "getlines (CHR 0x0A) content" 0 cat]
      stored_normalized_upsert_line by blast
qed

section \<open>Properties of the presentation and of the menu\<close>

lemma case_load_catalog:
  "catalog (case_load fs st) =
     (case getline (CHR 0x0A) (cin st) of
        None \<Rightarrow> catalog st
      | Some (filename0, rest) \<Rightarrow>
          if trim filename0 \<noteq> [] \<and> fst (load_catalog_from_csv fs (trim filename0) new_catalog [])
          then fst (snd (load_catalog_from_csv fs (trim filename0) new_catalog []))
          else catalog st)"
  by (auto simp: case_load_def put_def Let_def split: option.splits prod.splits bool.splits)

lemma print_prereqs_join:
  "print_prereqs cat ps
     = join '', '' (map (\<lambda>pnum. case get cat pnum of Some pc \<Rightarrow> number pc | None \<Rightarrow> pnum) ps)"
  by (induction "'', ''" ps rule: join.induct) simp_all

lemma print_prereqs_stored:
  assumes "stored_normalized cat" and "\<forall>p \<in> set ps. upper p = p"
  shows "print_prereqs cat ps = join '', '' ps"
proof -
  have "(case get cat p of Some pc \<Rightarrow> number pc | None \<Rightarrow> p) = p" if "p \<in> set ps" for p
  proof (cases "get cat p")
    case None
    then show ?thesis by simp
  next
    case (Some pc)
    then have "(upper p, pc) \<in> set (data cat)"
      by (auto simp: get_def dest: map_of_SomeD)
    with assms(1) have "number pc = upper p"
      by (auto simp: stored_normalized_def)
    with Some assms(2) that show ?thesis by simp
  qed
  then have "map (\<lambda>pnum. case get cat pnum of Some pc \<Rightarrow> number pc | None \<Rightarrow> pnum) ps = ps"
    by (simp add: map_idI)
  then show ?thesis by (simp add: print_prereqs_join)
qed

lemma invalid_option_messages:
  "(trim option_raw0 = [] \<longrightarrow>
      handle_option fs option_raw0 st = put (''Please enter a menu option.'' @ NL @ NL) st)
   \<and> (trim option_raw0 \<noteq> [] \<and> (2 < length (trim option_raw0) \<or> stoi (trim option_raw0) = None) \<longrightarrow>
      handle_option fs option_raw0 st
        = put (trim option_raw0 @ '' is not a valid option.'' @ NL @ NL) st)"
  by (auto simp: handle_option_def Let_def)

section \<open>A failed load leaves the live catalog alone\<close>

text \<open>
  C1. \<open>load_catalog_from_csv\<close> returns \<open>true\<close> exactly when the file can be opened
  and every one of its lines parses. When it returns \<open>false\<close> (the file cannot be
  opened, a line has fewer than two fields, or an identifier or title is empty) the
  catalog passed to it is what it was and \<open>err\<close> holds the message of the error. In
  the menu, a failed load leaves the live catalog of \<open>main\<close> what it was before the
  load was attempted, whatever it held; the live catalog changes only to the complete
  result of a load in which every line of the file parsed.
\<close>

theorem load_is_all_or_nothing:
  "(fst (load_catalog_from_csv fs file_path out_catalog err) \<longleftrightarrow>
      (\<exists>content. fs file_path = Some content
         \<and> (\<forall>line \<in> set (getlines (CHR 0x0A) content). line_ok line)))
   \<and> (\<not> fst (load_catalog_from_csv fs file_path out_catalog err) \<longrightarrow>
        fst (snd (load_catalog_from_csv fs file_path out_catalog err)) = out_catalog
        \<and> (\<exists>e. snd (snd (load_catalog_from_csv fs file_path out_catalog err)) = error_text e))
   \<and> (\<forall>filename0 rest.
        getline (CHR 0x0A) (cin st) = Some (filename0, rest)
        \<and> \<not> fst (load_catalog_from_csv fs (trim filename0) new_catalog [])
        \<longrightarrow> catalog (case_load fs st) = catalog st)
   \<and> (catalog (case_load fs st) = catalog st
      \<or> (\<exists>filename0 rest content.
            getline (CHR 0x0A) (cin st) = Some (filename0, rest)
            \<and> fs (trim filename0) = Some content
            \<and> (\<forall>line \<in> set (getlines (CHR 0x0A) content). line_ok line)
            \<and> load_loop content 0 new_catalog = Inr (catalog (case_load fs st))))"
proof (intro conjI)
  show "fst (load_catalog_from_csv fs file_path out_catalog err) \<longleftrightarrow>
      (\<exists>content. fs file_path = Some content
         \<and> (\<forall>line \<in> set (getlines (CHR 0x0A) content). line_ok line))"
    by (rule load_catalog_from_csv_ok_iff)
next
  show "\<not> fst (load_catalog_from_csv fs file_path out_catalog err) \<longrightarrow>
        fst (snd (load_catalog_from_csv fs file_path out_catalog err)) = out_catalog
        \<and> (\<exists>e. snd (snd (load_catalog_from_csv fs file_path out_catalog err)) = error_text e)"
    using load_catalog_from_csv_failure by blast
next
  show "\<forall>filename0 rest.
        getline (CHR 0x0A) (cin st) = Some (filename0, rest)
        \<and> \<not> fst (load_catalog_from_csv fs (trim filename0) new_catalog [])
        \<longrightarrow> catalog (case_load fs st) = catalog st"
    by (simp add: case_load_catalog)
next
  show "catalog (case_load fs st) = catalog st
      \<or> (\<exists>filename0 rest content.
            getline (CHR 0x0A) (cin st) = Some (filename0, rest)
            \<and> fs (trim filename0) = Some content
            \<and> (\<forall>line \<in> set (getlines (CHR 0x0A) content). line_ok line)
            \<and> load_loop content 0 new_catalog = Inr (catalog (case_load fs st)))"
  proof (cases "getline (CHR 0x0A) (cin st)")
    case None
    then show ?thesis by (simp add: case_load_catalog)
  next
    case (Some p)
    obtain filename0 rest where p: "p = (filename0, rest)" by (cases p)
    show ?thesis
    proof (cases "trim filename0 \<noteq> [] \<and> fst (load_catalog_from_csv fs (trim filename0) new_catalog [])")
      case False
      with Some p show ?thesis by (auto simp: case_load_catalog)
    next
      case True
      then have ok: "fst (load_catalog_from_csv fs (trim filename0) new_catalog [])" by simp
      from load_catalog_from_csv_success [OF ok] obtain content where
        c: "fs (trim filename0) = Some content"
        and l: "load_lines (getlines (CHR 0x0A) content) 0 new_catalog
           = Inr (fst (snd (load_catalog_from_csv fs (trim filename0) new_catalog [])))"
        by blast
      from l have "\<forall>line \<in> set (getlines (CHR 0x0A) content). line_ok line"
        using load_lines_Inr_iff [of "getlines (CHR 0x0A) content" 0 new_catalog] by blast
      with Some p True c l show ?thesis by (simp add: case_load_catalog load_loop_lines)
    qed
  qed
qed

theorem load_is_all_or_nothing_witness:
  "getline (CHR 0x0A) (''bad.csv'' @ NL) = Some (''bad.csv'', [])
   \<and> \<not> fst (load_catalog_from_csv (one_file ''bad.csv'' parse_error_file) (trim ''bad.csv'') new_catalog [])
   \<and> catalog (case_load (one_file ''bad.csv'' parse_error_file)
        \<lparr>catalog = sample_catalog, cin = ''bad.csv'' @ NL, cout = [], running = True\<rparr>) = sample_catalog
   \<and> catalog (case_load (one_file ''bad.csv'' parse_error_file)
        \<lparr>catalog = new_catalog, cin = ''bad.csv'' @ NL, cout = [], running = True\<rparr>) = new_catalog"
proof -
  have g: "getline (CHR 0x0A) (''bad.csv'' @ NL) = Some (''bad.csv'', [])"
    by code_simp
  have f: "\<not> fst (load_catalog_from_csv (one_file ''bad.csv'' parse_error_file) (trim ''bad.csv'') new_catalog [])"
    by code_simp
  show ?thesis
    using load_is_all_or_nothing [of "one_file ''bad.csv'' parse_error_file" "''bad.csv''" new_catalog "[]"
        "\<lparr>catalog = sample_catalog, cin = ''bad.csv'' @ NL, cout = [], running = True\<rparr>"]
      load_is_all_or_nothing [of "one_file ''bad.csv'' parse_error_file" "''bad.csv''" new_catalog "[]"
        "\<lparr>catalog = new_catalog, cin = ''bad.csv'' @ NL, cout = [], running = True\<rparr>"] g f
    by simp
qed

section \<open>One record per identifier, the last line wins\<close>

text \<open>
  C2. After a successful load the catalog has no key twice, its keys are exactly the
  normalized identifiers of the non-blank lines of the file (so it has as many records
  as there are distinct identifiers), and for a non-blank line whose identifier occurs
  on no later line the record found under that identifier is the one built from that
  line: its number is the identifier, its title is the trimmed field 1 of the line and
  its prerequisites are those of the line.
\<close>

theorem load_last_occurrence_wins:
  assumes "fs file_path = Some content"
    and "load_catalog_from_csv fs file_path out_catalog err = (True, cat, err')"
  shows "distinct (map fst (data cat))
       \<and> fst ` set (data cat) = line_identifier ` {l \<in> set (getlines (CHR 0x0A) content). \<not> blank l}
       \<and> length (data cat)
           = card (line_identifier ` {l \<in> set (getlines (CHR 0x0A) content). \<not> blank l})
       \<and> (\<forall>pre line post.
             getlines (CHR 0x0A) content = pre @ line # post \<and> \<not> blank line
             \<and> (\<forall>l \<in> set post. \<not> blank l \<longrightarrow> line_identifier l \<noteq> line_identifier line)
             \<longrightarrow> (\<exists>r. get cat (line_identifier line) = Some r
                      \<and> map_of (data cat) (line_identifier line) = Some r
                      \<and> number r = upper (split_csv_simple (trim line) ! 0)
                      \<and> title r = split_csv_simple (trim line) ! 1
                      \<and> prereqs r = line_prereqs line))"
proof -
  let ?ls = "getlines (CHR 0x0A) content"
  let ?nb = "\<lambda>l. \<not> blank l"
  from assms have l: "load_lines ?ls 0 new_catalog = Inr cat"
    by (auto simp: load_catalog_from_csv_def load_loop_lines split: sum.splits)
  then have ok: "\<forall>l \<in> set ?ls. line_ok l"
    using load_lines_Inr_iff [of ?ls 0 new_catalog] by blast
  from load_lines_ok_result [OF ok, of 0 new_catalog] l
  have cat: "cat = foldl upsert new_catalog (map line_course (filter ?nb ?ls))"
    by simp
  have "keys_distinct new_catalog"
    by (simp add: keys_distinct_def new_catalog_def)
  with l have d: "keys_distinct cat"
    using load_lines_invariant [of keys_distinct new_catalog ?ls 0 cat] keys_distinct_upsert
    by blast
  have k: "fst ` set (data cat) = line_identifier ` {l \<in> set ?ls. \<not> blank l}"
    unfolding cat keys_foldl_upsert
    by (auto simp: new_catalog_def course_key_line_course image_image)
  have w: "\<exists>r. get cat (line_identifier line) = Some r
                      \<and> map_of (data cat) (line_identifier line) = Some r
                      \<and> number r = upper (split_csv_simple (trim line) ! 0)
                      \<and> title r = split_csv_simple (trim line) ! 1
                      \<and> prereqs r = line_prereqs line"
    if s: "?ls = pre @ line # post" and nb: "\<not> blank line"
      and p: "\<forall>l \<in> set post. \<not> blank l \<longrightarrow> line_identifier l \<noteq> line_identifier line"
    for pre line post
  proof -
    have f: "map line_course (filter ?nb ?ls)
        = map line_course (filter ?nb pre) @ line_course line # map line_course (filter ?nb post)"
      using s nb by simp
    have n: "course_key (line_course line) \<notin> course_key ` set (map line_course (filter ?nb post))"
      using p by (auto simp: course_key_line_course)
    have "map_of (data cat) (course_key (line_course line)) = Some (line_course line)"
      unfolding cat f using n by (rule map_of_foldl_upsert_last)
    then have m: "map_of (data cat) (line_identifier line) = Some (line_course line)"
      by (simp add: course_key_line_course)
    then have "get cat (line_identifier line) = Some (line_course line)"
      by (simp add: get_def upper_line_identifier)
    with m show ?thesis
      by (simp add: line_course_def line_identifier_def line_title_def line_fields_def)
  qed
  from d have "card (set (map fst (data cat))) = length (map fst (data cat))"
    unfolding keys_distinct_def by (rule distinct_card)
  with k have n: "length (data cat) = card (line_identifier ` {l \<in> set ?ls. \<not> blank l})"
    by simp
  from w have w': "\<forall>pre line post.
             ?ls = pre @ line # post \<and> \<not> blank line
             \<and> (\<forall>l \<in> set post. \<not> blank l \<longrightarrow> line_identifier l \<noteq> line_identifier line)
             \<longrightarrow> (\<exists>r. get cat (line_identifier line) = Some r
                      \<and> map_of (data cat) (line_identifier line) = Some r
                      \<and> number r = upper (split_csv_simple (trim line) ! 0)
                      \<and> title r = split_csv_simple (trim line) ! 1
                      \<and> prereqs r = line_prereqs line)"
    by blast
  from d have d': "distinct (map fst (data cat))"
    by (simp add: keys_distinct_def)
  show ?thesis
    by (intro conjI) (rule d' k n w')+
qed

theorem load_last_occurrence_wins_witness:
  "load_catalog_from_csv (one_file ''dup.csv'' duplicate_file) ''dup.csv'' new_catalog []
     = (True, duplicate_catalog, [])
   \<and> get duplicate_catalog ''CSCI101''
     = Some \<lparr>number = ''CSCI101'', title = ''New title'', prereqs = [''MATH201'', ''CSCI100'']\<rparr>"
proof -
  have h1: "one_file ''dup.csv'' duplicate_file ''dup.csv'' = Some duplicate_file"
    by (simp add: one_file_def)
  have h2: "load_catalog_from_csv (one_file ''dup.csv'' duplicate_file) ''dup.csv'' new_catalog []
     = (True, duplicate_catalog, [])"
    by code_simp
  have g: "getlines (CHR 0x0A) duplicate_file
     = [''csci101,Old title,MATH100'', [], ''MATH201,Discrete''] @ ''CSCI101, New title ,math201,, csci100 '' # []"
    by code_simp
  have nb: "\<not> blank ''CSCI101, New title ,math201,, csci100 ''"
    by code_simp
  have i: "line_identifier ''CSCI101, New title ,math201,, csci100 '' = ''CSCI101''"
    by code_simp
  have f: "split_csv_simple (trim ''CSCI101, New title ,math201,, csci100 '')
       = [''CSCI101'', ''New title'', ''math201'', [], ''csci100'']"
    by code_simp
  have p: "line_prereqs ''CSCI101, New title ,math201,, csci100 '' = [''MATH201'', ''CSCI100'']"
    by code_simp
  have u: "upper ''CSCI101'' = ''CSCI101''"
    by code_simp
  from load_last_occurrence_wins [of "one_file ''dup.csv'' duplicate_file" "''dup.csv''" duplicate_file
      new_catalog "[]" duplicate_catalog "[]"] h1 h2
  have "\<forall>pre line post.
             getlines (CHR 0x0A) duplicate_file = pre @ line # post \<and> \<not> blank line
             \<and> (\<forall>l \<in> set post. \<not> blank l \<longrightarrow> line_identifier l \<noteq> line_identifier line)
             \<longrightarrow> (\<exists>r. get duplicate_catalog (line_identifier line) = Some r
                      \<and> map_of (data duplicate_catalog) (line_identifier line) = Some r
                      \<and> number r = upper (split_csv_simple (trim line) ! 0)
                      \<and> title r = split_csv_simple (trim line) ! 1
                      \<and> prereqs r = line_prereqs line)"
    by blast
  from this [rule_format, of "[''csci101,Old title,MATH100'', [], ''MATH201,Discrete'']"
      "''CSCI101, New title ,math201,, csci100 ''" "[]"] g nb
  obtain r where "get duplicate_catalog ''CSCI101'' = Some r" "number r = ''CSCI101''"
    "title r = ''New title''" "prereqs r = [''MATH201'', ''CSCI100'']"
    unfolding i f p by (auto simp: u)
  then have "get duplicate_catalog ''CSCI101''
     = Some \<lparr>number = ''CSCI101'', title = ''New title'', prereqs = [''MATH201'', ''CSCI100'']\<rparr>"
    by (cases r) simp
  with h2 show ?thesis by simp
qed

section \<open>Lookup ignores case\<close>

text \<open>
  C3. If a record is stored under the upper-case form of an identifier, \<open>get\<close>
  returns that record for every query with the same upper-case form; two queries with
  the same upper-case form get the same answer; a record is found under every spelling
  of its number right after \<open>upsert\<close>. \<open>get\<close> always returns: either nothing or a
  record that is stored in the catalog. The witness loads the line \<open>csci101,Foo\<close> and
  queries it in three spellings.
\<close>

theorem get_is_case_insensitive:
  "(map_of (data cat) (upper i) = Some r \<and> upper q = upper i \<longrightarrow> get cat q = Some r)
   \<and> (upper q = upper i \<longrightarrow> get cat q = get cat i)
   \<and> (upper q = upper (number c) \<longrightarrow> get (upsert cat c) q = Some c)
   \<and> (get cat q = None \<or> (\<exists>r'. get cat q = Some r' \<and> (upper q, r') \<in> set (data cat)))"
proof -
  have t: "get cat q = None \<or> (\<exists>r'. get cat q = Some r' \<and> (upper q, r') \<in> set (data cat))"
    by (cases "map_of (data cat) (upper q)") (auto simp: get_def dest: map_of_SomeD)
  then show ?thesis
    by (simp add: get_def map_of_upsert course_key_def)
qed

theorem get_is_case_insensitive_witness:
  "load_catalog_from_csv (one_file ''f.csv'' ''csci101,Foo'') ''f.csv'' new_catalog [] = (True, foo_catalog, [])
   \<and> get foo_catalog ''csci101'' = Some \<lparr>number = ''CSCI101'', title = ''Foo'', prereqs = []\<rparr>
   \<and> get foo_catalog ''CSCI101'' = Some \<lparr>number = ''CSCI101'', title = ''Foo'', prereqs = []\<rparr>
   \<and> get foo_catalog ''CsCi101'' = Some \<lparr>number = ''CSCI101'', title = ''Foo'', prereqs = []\<rparr>"
proof -
  let ?r = "\<lparr>number = ''CSCI101'', title = ''Foo'', prereqs = []\<rparr>"
  have l: "load_catalog_from_csv (one_file ''f.csv'' ''csci101,Foo'') ''f.csv'' new_catalog [] = (True, foo_catalog, [])"
    by code_simp
  have m: "map_of (data foo_catalog) (upper ''csci101'') = Some ?r"
    by code_simp
  have u1: "upper ''csci101'' = upper ''csci101''" by simp
  have u2: "upper ''CSCI101'' = upper ''csci101''" by code_simp
  have u3: "upper ''CsCi101'' = upper ''csci101''" by code_simp
  from get_is_case_insensitive [of foo_catalog "''csci101''" ?r "''csci101''"] m u1
  have g1: "get foo_catalog ''csci101'' = Some ?r" by blast
  from get_is_case_insensitive [of foo_catalog "''csci101''" ?r "''CSCI101''"] m u2
  have g2: "get foo_catalog ''CSCI101'' = Some ?r" by blast
  from get_is_case_insensitive [of foo_catalog "''csci101''" ?r "''CsCi101''"] m u3
  have g3: "get foo_catalog ''CsCi101'' = Some ?r" by blast
  from l g1 g2 g3 show ?thesis by simp
qed

section \<open>Keys are normalized identifiers\<close>

text \<open>
  C4. In every catalog reachable from the empty one by \<open>upsert\<close>, \<open>clear\<close> and
  load operations (successful or failed), every key is the upper-case form of the number
  of the record stored under it.
\<close>

theorem reachable_keys_are_normalized:
  assumes "reachable cat"
  shows "\<forall>(k, r) \<in> set (data cat). k = upper (number r)"
proof -
  have "keys_normalized new_catalog"
    by (simp add: keys_normalized_def new_catalog_def)
  with keys_normalized_upsert have "keys_normalized cat"
    using assms by (rule reachable_invariant)
  then show ?thesis by (simp add: keys_normalized_def)
qed

theorem reachable_keys_are_normalized_witness:
  "reachable (upsert new_catalog mixed_case_course)
   \<and> data (upsert new_catalog mixed_case_course) = [(''CSCI101'', mixed_case_course)]
   \<and> ''CSCI101'' = upper (number mixed_case_course)"
proof -
  have r: "reachable (upsert new_catalog mixed_case_course)"
    by (rule reachable_upsert) (rule reachable_new)
  have d: "data (upsert new_catalog mixed_case_course) = [(''CSCI101'', mixed_case_course)]"
    by code_simp
  from reachable_keys_are_normalized [OF r] show ?thesis
    using r d by simp
qed

section \<open>The sorted list of identifiers\<close>

text \<open>
  C5. For a catalog whose keys are pairwise different, as the keys of a hash map are
  (and as they are in every reachable catalog, \<open>reachable_keys_distinct\<close>),
  \<open>sorted_numbers\<close> returns all the keys and nothing else, each once, in ascending
  order: an earlier entry is strictly below a later one in the lexicographic order of
  the byte values. The result depends on the set of keys only, not on the order in which
  the hash map enumerates them, so a second call on an unchanged catalog returns the same
  sequence.
\<close>

theorem sorted_numbers_ascending:
  assumes "distinct (map fst (data cat))"
  shows "sorted (sorted_numbers cat)
       \<and> distinct (sorted_numbers cat)
       \<and> set (sorted_numbers cat) = fst ` set (data cat)
       \<and> length (sorted_numbers cat) = length (data cat)
       \<and> (\<forall>i j. i < j \<and> j < length (sorted_numbers cat) \<longrightarrow>
             (sorted_numbers cat ! i, sorted_numbers cat ! j)
               \<in> lexord {(a, b). (of_char a :: nat) < of_char b})
       \<and> (\<forall>cat'. distinct (map fst (data cat')) \<and> fst ` set (data cat') = fst ` set (data cat)
             \<longrightarrow> sorted_numbers cat' = sorted_numbers cat)"
proof -
  have s: "sorted (sorted_numbers cat)" and d: "distinct (sorted_numbers cat)"
    and e: "set (sorted_numbers cat) = fst ` set (data cat)"
    using assms by (simp_all add: sorted_numbers_def)
  have n: "length (sorted_numbers cat) = length (data cat)"
    by (simp add: sorted_numbers_def)
  from s d have st: "sorted_wrt (<) (sorted_numbers cat)"
    by (simp add: strict_sorted_iff)
  have lx: "(sorted_numbers cat ! i, sorted_numbers cat ! j)
               \<in> lexord {(a, b). (of_char a :: nat) < of_char b}"
    if "i < j" "j < length (sorted_numbers cat)" for i j
  proof -
    from st that have "sorted_numbers cat ! i < sorted_numbers cat ! j"
      by (simp add: sorted_wrt_iff_nth_less)
    then show ?thesis
      by (simp add: list_less_def less_char_def)
  qed
  have u: "sorted_numbers cat' = sorted_numbers cat"
    if "distinct (map fst (data cat'))" "fst ` set (data cat') = fst ` set (data cat)" for cat'
  proof -
    have "sorted (sorted_numbers cat')" "distinct (sorted_numbers cat')"
      "set (sorted_numbers cat') = set (sorted_numbers cat)"
      using that e by (simp_all add: sorted_numbers_def)
    with s d show ?thesis
      by (simp add: sorted_distinct_set_unique)
  qed
  from lx have lx': "\<forall>i j. i < j \<and> j < length (sorted_numbers cat) \<longrightarrow>
             (sorted_numbers cat ! i, sorted_numbers cat ! j)
               \<in> lexord {(a, b). (of_char a :: nat) < of_char b}"
    by blast
  from u have u': "\<forall>cat'. distinct (map fst (data cat')) \<and> fst ` set (data cat') = fst ` set (data cat)
             \<longrightarrow> sorted_numbers cat' = sorted_numbers cat"
    by blast
  show ?thesis
    by (intro conjI) (rule s d e n lx' u')+
qed

theorem sorted_numbers_ascending_witness:
  "distinct (map fst (data scenario_catalog))
   \<and> sorted_numbers scenario_catalog = [''CSCI100'', ''CSCI101'', ''CSCI200'']
   \<and> sorted (sorted_numbers scenario_catalog)
   \<and> distinct (sorted_numbers scenario_catalog)"
proof -
  have h: "distinct (map fst (data scenario_catalog))"
    by code_simp
  have v: "sorted_numbers scenario_catalog = [''CSCI100'', ''CSCI101'', ''CSCI200'']"
    by code_simp
  from sorted_numbers_ascending [OF h] have "sorted (sorted_numbers scenario_catalog)"
    and "distinct (sorted_numbers scenario_catalog)"
    by simp_all
  with h v show ?thesis by simp
qed

section \<open>Empty identifier or title\<close>

text \<open>
  C6, as the code has it. A non-blank line that splits into at least two fields and
  whose identifier (field 0 in upper case) or title (field 1) is empty makes the pass of
  the loop fail with the invalid-data error for its line number; when no earlier line
  of the file fails, the load returns \<open>false\<close> with the message naming the 1-based
  number of that line, and the catalog passed in is untouched. The line
  \<open>CSCI101,,CSCI100\<close> is such a line. The line \<open>CSCI101,\<close> is not: the splitter
  yields no field after a trailing comma, so the line has one field and is a parse
  error.
\<close>

theorem empty_field_is_invalid_data:
  assumes "fs file_path = Some content"
    and "getlines (CHR 0x0A) content = pre @ line # post"
    and "\<forall>l \<in> set pre. line_ok l"
    and "trim line \<noteq> []"
    and "2 \<le> length (split_csv_simple (trim line))"
    and "upper (split_csv_simple (trim line) ! 0) = [] \<or> split_csv_simple (trim line) ! 1 = []"
  shows "loop_body line_no line temp = Inl (InvalidDataError line_no)
       \<and> load_catalog_from_csv fs file_path out_catalog err
           = (False, out_catalog,
              ''Invalid data on line '' @ to_string (length pre + 1)
                @ '': empty course number or title.'')
       \<and> split_csv_simple ''CSCI101,'' = [''CSCI101'']
       \<and> loop_body line_no ''CSCI101,'' temp = Inl (ParseError line_no)
       \<and> loop_body line_no ''CSCI101,,CSCI100'' temp = Inl (InvalidDataError line_no)"
proof -
  have b: "loop_body n line t = Inl (InvalidDataError n)" for n t
    using assms(4,5,6)
    by (auto simp: loop_body_cases blank_def line_fields_def line_identifier_def line_title_def)
  have s: "split_csv_simple ''CSCI101,'' = [''CSCI101'']"
    by code_simp
  have t: "trim ''CSCI101,'' = ''CSCI101,''"
    by code_simp
  have p: "loop_body line_no ''CSCI101,'' temp = Inl (ParseError line_no)"
    by (simp add: loop_body_cases blank_def line_fields_def s t)
  have t2: "trim ''CSCI101,,CSCI100'' = ''CSCI101,,CSCI100''"
    by code_simp
  have s2: "split_csv_simple ''CSCI101,,CSCI100'' = [''CSCI101'', [], ''CSCI100'']"
    by code_simp
  have i: "loop_body line_no ''CSCI101,,CSCI100'' temp = Inl (InvalidDataError line_no)"
    by (simp add: loop_body_cases blank_def line_fields_def line_title_def s2 t2)
  have "load_catalog_from_csv fs file_path out_catalog err
          = (False, out_catalog, error_text (InvalidDataError (length pre + 1)))"
    using assms(1-3) b by (rule load_catalog_from_csv_error_at)
  then show ?thesis using b s p i by (simp add: error_text_def)
qed

theorem empty_field_is_invalid_data_witness:
  "load_catalog_from_csv (one_file ''f.csv'' invalid_data_file) ''f.csv'' sample_catalog []
     = (False, sample_catalog, ''Invalid data on line 3: empty course number or title.'')"
proof -
  have h1: "one_file ''f.csv'' invalid_data_file ''f.csv'' = Some invalid_data_file"
    by (simp add: one_file_def)
  have h2: "getlines (CHR 0x0A) invalid_data_file
      = [''CSCI100,Intro to CS'', []] @ ''CSCI101,,CSCI100'' # [''x'']"
    by code_simp
  have h3: "\<forall>l \<in> set [''CSCI100,Intro to CS'', []]. line_ok l"
    by code_simp
  have h4: "trim ''CSCI101,,CSCI100'' \<noteq> []"
    by code_simp
  have h5: "2 \<le> length (split_csv_simple (trim ''CSCI101,,CSCI100''))"
    by code_simp
  have h6: "upper (split_csv_simple (trim ''CSCI101,,CSCI100'') ! 0) = []
      \<or> split_csv_simple (trim ''CSCI101,,CSCI100'') ! 1 = []"
    by code_simp
  have n: "to_string (length [''CSCI100,Intro to CS'', []] + 1) = ''3''"
    by code_simp
  show ?thesis
    using empty_field_is_invalid_data [of "one_file ''f.csv'' invalid_data_file" "''f.csv''"
        invalid_data_file "[''CSCI100,Intro to CS'', []]" "''CSCI101,,CSCI100''" "[''x'']" 0
        new_catalog sample_catalog "[]"]
      h1 h2 h3 h4 h5 h6
    unfolding n by simp
qed

text \<open>
  C6 as stated fails on the line \<open>CSCI101,\<close>: it is non-blank, splits into the single
  field \<open>CSCI101\<close>, and the load reports a parse error, not invalid data.
\<close>

theorem trailing_comma_counterexample:
  "trim ''CSCI101,'' \<noteq> []
   \<and> split_csv_simple (trim ''CSCI101,'') = [''CSCI101'']
   \<and> loop_body 1 ''CSCI101,'' new_catalog = Inl (ParseError 1)
   \<and> loop_body 1 ''CSCI101,'' new_catalog \<noteq> Inl (InvalidDataError 1)
   \<and> load_catalog_from_csv (one_file ''f.csv'' ''CSCI101,'') ''f.csv'' new_catalog []
       = (False, new_catalog, ''Parse error on line 1: need at least courseNumber and courseTitle.'')"
  by code_simp

section \<open>Menu input that is no option\<close>

text \<open>
  C7 fails on the code. A menu line of two bytes that starts with a digit is read by
  \<open>std::stoi\<close>, which ignores what follows the digit: the line \<open>1a\<close> runs the load
  command (it prompts for the file name and replaces the catalog), the line \<open>9x\<close>
  ends the program, and the line \<open>4x\<close> is refused with the message
  \<open>4 is not a valid option.\<close>, which does not echo the input.
\<close>

theorem option_with_trailing_text_runs_command:
  "trim ''1a'' = ''1a'' \<and> stoi ''1a'' = Some 1
   \<and> handle_option fs ''1a'' st = case_load fs st
   \<and> catalog (handle_option (one_file ''dup.csv'' duplicate_file) ''1a''
        \<lparr>catalog = new_catalog, cin = ''dup.csv'' @ NL, cout = [], running = True\<rparr>)
       = duplicate_catalog
   \<and> cout (handle_option fs ''1a'' \<lparr>catalog = new_catalog, cin = [], cout = [], running = True\<rparr>)
       = ''Enter the file name to load (e.g., CS 300 ABCU_Advising_Program_Input.csv): ''
         @ ''Input cancelled.'' @ NL @ NL
   \<and> running (handle_option fs ''9x'' st) = False
   \<and> cout (handle_option fs ''4x'' st) = cout st @ ''4 is not a valid option.'' @ NL @ NL
   \<and> cout (main (one_file ''dup.csv'' duplicate_file) (''1a'' @ NL @ ''dup.csv'' @ NL))
       = print_welcome @ print_menu
         @ ''Enter the file name to load (e.g., CS 300 ABCU_Advising_Program_Input.csv): ''
         @ ''Data loaded successfully (2 courses).'' @ NL @ NL @ print_menu"
proof -
  have m: "cout (main (one_file ''dup.csv'' duplicate_file) (''1a'' @ NL @ ''dup.csv'' @ NL))
       = print_welcome @ print_menu
         @ ''Enter the file name to load (e.g., CS 300 ABCU_Advising_Program_Input.csv): ''
         @ ''Data loaded successfully (2 courses).'' @ NL @ NL @ print_menu"
    by code_simp
  have t1: "trim ''1a'' = ''1a''" by code_simp
  have s1: "stoi ''1a'' = Some 1" by code_simp
  have t9: "trim ''9x'' = ''9x''" by code_simp
  have s9: "stoi ''9x'' = Some 9" by code_simp
  have t4: "trim ''4x'' = ''4x''" by code_simp
  have s4: "stoi ''4x'' = Some 4" by code_simp
  have i4: "int_to_string 4 = ''4''" by code_simp
  have h1: "handle_option fs ''1a'' st = case_load fs st" for fs st
    by (simp add: handle_option_def t1 s1)
  have c: "catalog (case_load (one_file ''dup.csv'' duplicate_file)
        \<lparr>catalog = new_catalog, cin = ''dup.csv'' @ NL, cout = [], running = True\<rparr>)
       = duplicate_catalog"
    by code_simp
  have g: "getline (CHR 0x0A) [] = None"
    by (simp add: getline_def)
  have o: "cout (case_load fs \<lparr>catalog = new_catalog, cin = [], cout = [], running = True\<rparr>)
       = ''Enter the file name to load (e.g., CS 300 ABCU_Advising_Program_Input.csv): ''
         @ ''Input cancelled.'' @ NL @ NL"
    by (simp add: case_load_def put_def g)
  have r: "running (handle_option fs ''9x'' st) = False"
    by (simp add: handle_option_def t9 s9)
  have d: "cout (handle_option fs ''4x'' st) = cout st @ ''4 is not a valid option.'' @ NL @ NL"
    by (simp add: handle_option_def t4 s4 i4 put_def)
  show ?thesis
    using t1 s1 h1 c o r d m by simp
qed

section \<open>Fewer than two fields\<close>

text \<open>
  C8. A non-blank line that splits into fewer than two fields makes the pass of the
  loop fail with the parse error for its line number. When no earlier line of the file
  fails, the load returns \<open>false\<close> with the message naming the 1-based number of
  that line, counted over all lines of the file, the blank ones too; the catalog passed
  in is untouched, so no partial catalog is returned.
\<close>

theorem too_few_fields_is_parse_error:
  assumes "fs file_path = Some content"
    and "getlines (CHR 0x0A) content = pre @ line # post"
    and "\<forall>l \<in> set pre. line_ok l"
    and "trim line \<noteq> []"
    and "length (split_csv_simple (trim line)) < 2"
  shows "loop_body line_no line temp = Inl (ParseError line_no)
       \<and> load_catalog_from_csv fs file_path out_catalog err
           = (False, out_catalog,
              ''Parse error on line '' @ to_string (length pre + 1)
                @ '': need at least courseNumber and courseTitle.'')"
proof -
  have b: "loop_body n line t = Inl (ParseError n)" for n t
    using assms(4,5) by (simp add: loop_body_cases blank_def line_fields_def)
  have "load_catalog_from_csv fs file_path out_catalog err
          = (False, out_catalog, error_text (ParseError (length pre + 1)))"
    using assms(1-3) b by (rule load_catalog_from_csv_error_at)
  then show ?thesis using b by (simp add: error_text_def)
qed

theorem too_few_fields_is_parse_error_witness:
  "load_catalog_from_csv (\<lambda>p. Some parse_error_file) ''f.csv''
      \<lparr>data = [(''X'', \<lparr>number = ''X'', title = ''Y'', prereqs = []\<rparr>)]\<rparr> []
   = (False, \<lparr>data = [(''X'', \<lparr>number = ''X'', title = ''Y'', prereqs = []\<rparr>)]\<rparr>,
      ''Parse error on line 3: need at least courseNumber and courseTitle.'')"
proof -
  have h1: "(\<lambda>p. Some parse_error_file) ''f.csv'' = Some parse_error_file"
    by simp
  have h2: "getlines (CHR 0x0A) parse_error_file = [''CSCI100,Intro to CS'', []] @ ''CSCI101'' # [''x,y'']"
    by code_simp
  have h3: "\<forall>l \<in> set [''CSCI100,Intro to CS'', []]. line_ok l"
    by code_simp
  have h4: "trim ''CSCI101'' \<noteq> []"
    by code_simp
  have h5: "length (split_csv_simple (trim ''CSCI101'')) < 2"
    by code_simp
  have n: "to_string (length [''CSCI100,Intro to CS'', []] + 1) = ''3''"
    by code_simp
  show ?thesis
    using too_few_fields_is_parse_error [of "\<lambda>p. Some parse_error_file" "''f.csv''" parse_error_file
        "[''CSCI100,Intro to CS'', []]" "''CSCI101''" "[''x,y'']" 0 new_catalog
        "\<lparr>data = [(''X'', \<lparr>number = ''X'', title = ''Y'', prereqs = []\<rparr>)]\<rparr>" "[]"]
      h1 h2 h3 h4 h5
    unfolding n by simp
qed

section \<open>Prerequisites\<close>

text \<open>
  C9. The record built from a non-blank line that parses has as prerequisites the
  fields from index 2 on, each in upper case, without the empty ones, in the order of
  the line. In terms of the text between the commas of the trimmed line: the pieces from
  index 2 on that hold a byte other than white space, each trimmed and put in upper
  case, in the order of the line; so a piece that is empty or white space only is left
  out, and no stored prerequisite is empty, starts or ends with white space, or changes
  when put in upper case. For a catalog that a load returned and a query that finds a
  record, the detail view prints the number and the title, then \<open>Prerequisites: \<close>
  followed by \<open>None\<close> when the list is empty and by the stored prerequisites joined by
  a comma and a space otherwise; a prerequisite that is not in the catalog is printed as
  stored.
\<close>

theorem prerequisites_stored_and_shown:
  "(\<not> blank line \<and> line_ok line \<longrightarrow>
      loop_body line_no line temp
        = Inr (upsert temp
            \<lparr>number = upper (split_csv_simple (trim line) ! 0),
             title = split_csv_simple (trim line) ! 1,
             prereqs = filter (\<lambda>p. p \<noteq> []) (map upper (drop 2 (split_csv_simple (trim line))))\<rparr>))
   \<and> filter (\<lambda>p. p \<noteq> []) (map upper (drop 2 (split_csv_simple (trim line))))
       = map (\<lambda>f. upper (trim f))
           (filter (\<lambda>f. \<not> set f \<subseteq> white_space)
              (drop 2 (getlines CHR '','' (trim line))))
   \<and> (\<forall>p \<in> set (filter (\<lambda>p. p \<noteq> []) (map upper (drop 2 (split_csv_simple (trim line))))).
          p \<noteq> [] \<and> hd p \<notin> white_space \<and> last p \<notin> white_space
          \<and> (\<forall>ch \<in> set p. \<not> (CHR ''a'' \<le> ch \<and> ch \<le> CHR ''z'')) \<and> upper p = p)
   \<and> (load_catalog_from_csv fs file_path out_catalog err = (True, cat, err')
        \<and> get cat user_input_number = Some c \<longrightarrow>
      print_course_details cat user_input_number
           = number c @ '', '' @ title c @ NL
             @ ''Prerequisites: '' @ (if prereqs c = [] then ''None'' else join '', '' (prereqs c))
             @ NL @ NL
      \<and> (\<forall>pnum \<in> set (prereqs c). get cat pnum = None \<longrightarrow> print_prereqs cat [pnum] = pnum))"
proof (intro conjI impI)
  assume "\<not> blank line \<and> line_ok line"
  then show "loop_body line_no line temp
        = Inr (upsert temp
            \<lparr>number = upper (split_csv_simple (trim line) ! 0),
             title = split_csv_simple (trim line) ! 1,
             prereqs = filter (\<lambda>p. p \<noteq> []) (map upper (drop 2 (split_csv_simple (trim line))))\<rparr>)"
    by (auto simp: loop_body_cases line_ok_def line_course_def line_prereqs_def line_fields_def
          line_identifier_def line_title_def)
next
  have "(\<lambda>f. \<exists>c \<in> set f. \<not> is_space_or_cntrl c) = (\<lambda>f. \<not> set f \<subseteq> white_space)"
    by (auto simp: is_space_or_cntrl_white_space)
  then show "filter (\<lambda>p. p \<noteq> []) (map upper (drop 2 (split_csv_simple (trim line))))
       = map (\<lambda>f. upper (trim f))
           (filter (\<lambda>f. \<not> set f \<subseteq> white_space)
              (drop 2 (getlines CHR '','' (trim line))))"
    by (simp add: split_csv_simple_getlines drop_map prereqs_of_raw_fields)
next
  show "\<forall>p \<in> set (filter (\<lambda>p. p \<noteq> []) (map upper (drop 2 (split_csv_simple (trim line))))).
          p \<noteq> [] \<and> hd p \<notin> white_space \<and> last p \<notin> white_space
          \<and> (\<forall>ch \<in> set p. \<not> (CHR ''a'' \<le> ch \<and> ch \<le> CHR ''z'')) \<and> upper p = p"
  proof
    fix p
    assume "p \<in> set (filter (\<lambda>p. p \<noteq> []) (map upper (drop 2 (split_csv_simple (trim line)))))"
    then obtain f where p: "p = upper (trim f)" and n: "p \<noteq> []"
      by (auto simp: split_csv_simple_getlines drop_map)
    from p n have t: "trim f \<noteq> []"
      by (simp add: upper_Nil_iff)
    then have "\<not> is_space_or_cntrl (hd (trim f))" and "\<not> is_space_or_cntrl (last (trim f))"
      using trim_no_outer_space [of f] by simp_all
    with t have "\<not> is_space_or_cntrl (hd p)" and "\<not> is_space_or_cntrl (last p)"
      unfolding p upper_def by (simp_all add: hd_map last_map toupper_space)
    then have w: "hd p \<notin> white_space" "last p \<notin> white_space"
      by (simp_all add: is_space_or_cntrl_white_space)
    have "\<forall>ch \<in> set p. \<not> (CHR ''a'' \<le> ch \<and> ch \<le> CHR ''z'')"
      using upper_no_lower [of _ "trim f"] unfolding p by (simp add: less_eq_char_def)
    with n p w show "p \<noteq> [] \<and> hd p \<notin> white_space \<and> last p \<notin> white_space
          \<and> (\<forall>ch \<in> set p. \<not> (CHR ''a'' \<le> ch \<and> ch \<le> CHR ''z'')) \<and> upper p = p"
      by (simp add: upper_idem)
  qed
next
  assume h: "load_catalog_from_csv fs file_path out_catalog err = (True, cat, err')
        \<and> get cat user_input_number = Some c"
  then have sn: "stored_normalized cat"
    using loaded_stored_normalized by blast
  from h have "(upper user_input_number, c) \<in> set (data cat)"
    by (auto simp: get_def dest: map_of_SomeD)
  with sn have "\<forall>p \<in> set (prereqs c). upper p = p"
    by (auto simp: stored_normalized_def)
  with sn have "print_prereqs cat (prereqs c) = join '', '' (prereqs c)"
    by (rule print_prereqs_stored)
  with h show "print_course_details cat user_input_number
           = number c @ '', '' @ title c @ NL
             @ ''Prerequisites: '' @ (if prereqs c = [] then ''None'' else join '', '' (prereqs c))
             @ NL @ NL"
    by (simp add: print_course_details_def get_def upper_idem)
next
  show "\<forall>pnum \<in> set (prereqs c). get cat pnum = None \<longrightarrow> print_prereqs cat [pnum] = pnum"
    by simp
qed

theorem prerequisites_stored_and_shown_witness:
  "\<not> blank prereq_line \<and> line_ok prereq_line
   \<and> getlines CHR '','' (trim prereq_line)
       = [''CSCI300 '', '' Algorithms '', '' csci200 '', ''  '', [], '' math201 '']
   \<and> loop_body 2 prereq_line new_catalog
       = Inr (upsert new_catalog
           \<lparr>number = ''CSCI300'', title = ''Algorithms'', prereqs = [''CSCI200'', ''MATH201'']\<rparr>)
   \<and> load_catalog_from_csv (one_file ''abcu.csv'' prereq_file) ''abcu.csv'' new_catalog []
       = (True, prereq_catalog, [])
   \<and> get prereq_catalog ''CSCI200'' \<noteq> None
   \<and> get prereq_catalog ''MATH201'' = None
   \<and> print_course_details prereq_catalog ''csci300''
       = ''CSCI300, Algorithms'' @ NL @ ''Prerequisites: CSCI200, MATH201'' @ NL @ NL
   \<and> print_course_details prereq_catalog ''math100''
       = ''MATH100, Algebra'' @ NL @ ''Prerequisites: None'' @ NL @ NL"
proof -
  let ?fs = "one_file ''abcu.csv'' prereq_file"
  let ?c3 = "\<lparr>number = ''CSCI300'', title = ''Algorithms'', prereqs = [''CSCI200'', ''MATH201'']\<rparr>"
  let ?c1 = "\<lparr>number = ''MATH100'', title = ''Algebra'', prereqs = []\<rparr>"
  have b: "\<not> blank prereq_line \<and> line_ok prereq_line"
    by code_simp
  have r: "getlines CHR '','' (trim prereq_line)
       = [''CSCI300 '', '' Algorithms '', '' csci200 '', ''  '', [], '' math201 '']"
    by code_simp
  have f: "split_csv_simple (trim prereq_line)
       = [''CSCI300'', ''Algorithms'', ''csci200'', [], [], ''math201'']"
    by code_simp
  have u0: "upper ''CSCI300'' = ''CSCI300''" by code_simp
  have u: "filter (\<lambda>p. p \<noteq> []) (map upper (drop 2 [''CSCI300'', ''Algorithms'', ''csci200'', [], [], ''math201'']))
       = [''CSCI200'', ''MATH201'']"
    by code_simp
  from prerequisites_stored_and_shown [of prereq_line 2 new_catalog] b
  have lb: "loop_body 2 prereq_line new_catalog = Inr (upsert new_catalog ?c3)"
    unfolding f u by (simp add: u0)
  have l: "load_catalog_from_csv ?fs ''abcu.csv'' new_catalog [] = (True, prereq_catalog, [])"
    by code_simp
  have g3: "get prereq_catalog ''csci300'' = Some ?c3"
    by code_simp
  have g1: "get prereq_catalog ''math100'' = Some ?c1"
    by code_simp
  have g2: "get prereq_catalog ''CSCI200'' \<noteq> None"
    by code_simp
  have m: "get prereq_catalog ''MATH201'' = None"
    by code_simp
  have j: "join '', '' [''CSCI200'', ''MATH201''] = ''CSCI200, MATH201''"
    by simp
  from prerequisites_stored_and_shown [of "[]" 0 new_catalog ?fs "''abcu.csv''" new_catalog "[]"
      prereq_catalog "[]" "''csci300''" ?c3] l g3
  have p3: "print_course_details prereq_catalog ''csci300''
       = ''CSCI300, Algorithms'' @ NL @ ''Prerequisites: CSCI200, MATH201'' @ NL @ NL"
    by (simp add: j)
  from prerequisites_stored_and_shown [of "[]" 0 new_catalog ?fs "''abcu.csv''" new_catalog "[]"
      prereq_catalog "[]" "''math100''" ?c1] l g1
  have p1: "print_course_details prereq_catalog ''math100''
       = ''MATH100, Algebra'' @ NL @ ''Prerequisites: None'' @ NL @ NL"
    by simp
  from b r lb l g2 m p3 p1 show ?thesis by simp
qed

section \<open>Files of blank lines\<close>

text \<open>
  C10. A file that can be opened and whose lines are all empty after trimming (the empty
  file too, which has no line) loads successfully, and the catalog the load returns is
  empty: \<open>load_catalog_from_csv\<close> returns \<open>true\<close>, leaves \<open>err\<close> alone and assigns
  the empty catalog to \<open>out_catalog\<close>, whatever it held.
\<close>

theorem blank_file_loads_empty:
  assumes "fs file_path = Some content"
    and "\<forall>line \<in> set (getlines (CHR 0x0A) content). trim line = []"
  shows "load_catalog_from_csv fs file_path out_catalog err = (True, new_catalog, err)
         \<and> data new_catalog = []"
  using assms
  by (simp add: load_catalog_from_csv_def load_loop_lines load_lines_blank new_catalog_def)

theorem blank_file_loads_empty_witness:
  "load_catalog_from_csv (\<lambda>p. Some ('' '' @ NL @ NL @ [CHR 0x09, CHR 0x0D] @ NL)) ''blank.csv''
      \<lparr>data = [(''X'', \<lparr>number = ''X'', title = ''Y'', prereqs = []\<rparr>)]\<rparr> ''e''
   = (True, \<lparr>data = []\<rparr>, ''e'')
   \<and> load_catalog_from_csv (\<lambda>p. Some []) ''empty.csv'' new_catalog [] = (True, \<lparr>data = []\<rparr>, [])"
proof -
  have l: "getlines (CHR 0x0A) ('' '' @ NL @ NL @ [CHR 0x09, CHR 0x0D] @ NL) = ['' '', [], [CHR 0x09, CHR 0x0D]]"
    by (simp add: getlines.simps getline_def)
  have e: "getlines (CHR 0x0A) [] = []"
    by (simp add: getlines.simps getline_def)
  have t: "\<forall>line \<in> set ['' '', [], [CHR 0x09, CHR 0x0D]]. trim line = []"
    by (simp add: trim_eq is_space_or_cntrl_def isspace_def)
  show ?thesis
    using blank_file_loads_empty [of "\<lambda>p. Some ('' '' @ NL @ NL @ [CHR 0x09, CHR 0x0D] @ NL)" "''blank.csv''" "'' '' @ NL @ NL @ [CHR 0x09, CHR 0x0D] @ NL" "\<lparr>data = [(''X'', \<lparr>number = ''X'', title = ''Y'', prereqs = []\<rparr>)]\<rparr>" "''e''"]
      blank_file_loads_empty [of "\<lambda>p. Some []" "''empty.csv''" "[]" new_catalog "[]"]
      l e t
    by (simp add: new_catalog_def)
qed

end
